theory Spec2Isabelle
  imports Main "HOL-Library.Word"
begin

section \<open>The detectnet-pipeline orchestration loop\<close>

text \<open>
  A shallow embedding of \<^verbatim>\<open>examples/detectnet-pipeline/detectnet-pipeline.cpp\<close>:
  the global \<^verbatim>\<open>signal_recieved\<close>, \<^verbatim>\<open>sig_handler\<close>, \<^verbatim>\<open>usage\<close> and \<^verbatim>\<open>main\<close>.

  The three collaborators (\<^verbatim>\<open>gstPipeline\<close>, \<^verbatim>\<open>detectNet\<close>, \<^verbatim>\<open>glDisplay\<close>) and the command
  line parser are declared in headers that are not part of this file. What their calls
  return is read from an environment record; that they are called, in which order and with
  which arguments, is recorded in an output trace together with every \<^verbatim>\<open>printf\<close>.
\<close>

subsection \<open>Data\<close>

type_synonym uint32 = "32 word"

text \<open>A C \<^verbatim>\<open>float\<close> is carried as its 32-bit pattern: \<^verbatim>\<open>main\<close> passes floats on and never
  computes with them.\<close>

type_synonym float32 = "32 word"

text \<open>\<^verbatim>\<open>float* imgRGBA\<close>: null or the address of a frame buffer.\<close>

datatype ptr = NULL | Addr nat

text \<open>\<^verbatim>\<open>detectNet::Detection\<close>, with the fields \<^verbatim>\<open>main\<close> reads.\<close>

record Detection =
  ClassID :: uint32
  Confidence :: float32
  Left :: float32
  Top :: float32
  Right :: float32
  Bottom :: float32

text \<open>One argument of a \<^verbatim>\<open>printf\<close>/\<^verbatim>\<open>sprintf\<close> call: \<^verbatim>\<open>%i\<close>, \<^verbatim>\<open>%u\<close>, \<^verbatim>\<open>%s\<close>, \<^verbatim>\<open>%f\<close>.\<close>

datatype arg = I int | U uint32 | S string | F float32

datatype collab = Pipeline | Net | Display

text \<open>What the process does that can be seen from outside: lines printed (format string
  and arguments, unformatted) and calls into the collaborators. \<^verbatim>\<open>Delete\<close> is the
  \<^verbatim>\<open>delete\<close> inside \<^verbatim>\<open>SAFE_DELETE\<close>.\<close>

datatype event =
    Printf string "arg list"
  | Call_signal
  | Call_Create collab
  | Call_SetViewport int int uint32 uint32
  | Call_Open
  | Call_CaptureRGBA nat
  | Call_Detect ptr uint32 uint32 uint32
  | Call_RenderOnce ptr uint32 uint32
  | Call_SetTitle string "arg list"
  | Call_IsClosed
  | Delete collab

text \<open>The answers of the collaborators during one pass through the loop body:
  the return value of \<^verbatim>\<open>CaptureRGBA\<close> and the pointer it leaves in \<^verbatim>\<open>imgRGBA\<close>
  (initialised to null by \<^verbatim>\<open>main\<close>), the return value of \<^verbatim>\<open>Detect\<close> and the buffer it
  leaves in \<^verbatim>\<open>detections\<close> (read at the indices below the returned count only), the value of
  \<^verbatim>\<open>GetNetworkFPS\<close> and of \<^verbatim>\<open>IsClosed\<close>.\<close>

record iter_input =
  capture_ok :: bool
  capture_img :: ptr
  num_detections :: int
  detections :: "nat \<Rightarrow> Detection"
  network_fps :: float32
  is_closed :: bool

text \<open>Everything else \<^verbatim>\<open>main\<close> reads from outside.
  \<^item> \<open>help_flag\<close>: \<^verbatim>\<open>cmdLine.GetFlag("help")\<close>; \<open>usage_text\<close>: \<^verbatim>\<open>detectNet::Usage()\<close>;
  \<^item> \<open>signal_ok\<close>: \<^verbatim>\<open>signal(SIGINT, sig_handler) != SIG_ERR\<close>;
  \<^item> \<open>handler_calls\<close>: the invocations of \<^verbatim>\<open>sig_handler\<close> by the operating system, with the
    signal number, indexed by delivery point (see \<open>tick\<close>);
  \<^item> \<open>pipeline_create\<close>: \<^verbatim>\<open>gstPipeline::Create(...)\<close>, \<open>None\<close> for null, else the width, height
    and pixel depth its accessors report;
  \<^item> \<open>net_create\<close>, \<open>display_create\<close>: whether \<^verbatim>\<open>detectNet::Create\<close> and \<^verbatim>\<open>glDisplay::Create\<close>
    return a non-null pointer; \<open>pipeline_open\<close>: the return value of \<^verbatim>\<open>pipeline->Open()\<close>;
  \<^item> \<open>overlay_flags\<close>: \<^verbatim>\<open>detectNet::OverlayFlagsFromStr(cmdLine.GetString("overlay", ...))\<close>;
  \<^item> \<open>class_desc\<close>: \<^verbatim>\<open>net->GetClassDesc\<close>; \<open>det_Width\<close>, \<open>det_Height\<close>: \<^verbatim>\<open>Detection::Width()\<close> and
    \<^verbatim>\<open>Height()\<close>; \<open>tensorrt_version\<close>: the macros \<^verbatim>\<open>NV_TENSORRT_MAJOR/MINOR/PATCH\<close>;
    \<open>precision_str\<close>: \<^verbatim>\<open>precisionTypeToStr(net->GetPrecision())\<close>;
  \<^item> \<open>iterations\<close>: the answers for the first, second, ... pass through the loop body.\<close>

record env =
  help_flag :: bool
  usage_text :: string
  signal_ok :: bool
  handler_calls :: "nat \<Rightarrow> int option"
  pipeline_create :: "(uint32 \<times> uint32 \<times> uint32) option"
  net_create :: bool
  overlay_flags :: uint32
  display_create :: bool
  pipeline_open :: bool
  class_desc :: "uint32 \<Rightarrow> string"
  det_Width :: "Detection \<Rightarrow> float32"
  det_Height :: "Detection \<Rightarrow> float32"
  tensorrt_version :: "int \<times> int \<times> int"
  precision_str :: string
  iterations :: "iter_input list"

text \<open>The state of the process: the global \<^verbatim>\<open>signal_recieved\<close>, whether \<^verbatim>\<open>sig_handler\<close> is
  registered, the number of delivery points passed, and the trace so far.\<close>

record state =
  signal_recieved :: bool
  handler_installed :: bool
  clock :: nat
  out :: "event list"

text \<open>The locals of \<^verbatim>\<open>main\<close> that the loop reads: the dimensions of \<^verbatim>\<open>pipeline\<close>,
  \<^verbatim>\<open>overlayFlags\<close>, and whether \<^verbatim>\<open>display\<close> is non-null.\<close>

record locals =
  width :: uint32
  height :: uint32
  overlayFlags :: uint32
  display :: bool

text \<open>How \<^verbatim>\<open>main\<close> ends: a \<^verbatim>\<open>return\<close> with its status, or the dereference of a null
  pointer.\<close>

datatype stop = Return int | NullDereference

subsection \<open>The signal handler\<close>

definition SIGINT :: int where
  "SIGINT = 2"

definition emit :: "event \<Rightarrow> state \<Rightarrow> state" where
  "emit e st = st\<lparr>out := out st @ [e]\<rparr>"

definition sig_handler :: "int \<Rightarrow> state \<Rightarrow> state" where
  "sig_handler signo st =
     (if signo = SIGINT
      then (emit (Printf ''received SIGINT\<newline>'' []) st)\<lparr>signal_recieved := True\<rparr>
      else st)"

text \<open>A delivery point. The operating system may run \<^verbatim>\<open>sig_handler\<close> between any two
  steps of \<^verbatim>\<open>main\<close>, once it is registered. The handler only prints and sets the flag, and
  \<^verbatim>\<open>main\<close> reads the flag in the loop condition only, so a handler run is observed here at
  the next call into a collaborator or the next loop test, whichever comes first: \<open>tick\<close>
  runs the handler if the environment schedules an invocation at the current point, and
  moves to the next point.\<close>

definition tick :: "env \<Rightarrow> state \<Rightarrow> state" where
  "tick e st =
     (case (if handler_installed st then handler_calls e (clock st) else None) of
        None \<Rightarrow> st
      | Some signo \<Rightarrow> sig_handler signo st)\<lparr>clock := Suc (clock st)\<rparr>"

text \<open>A call into a collaborator: a delivery point, then the call.\<close>

definition act :: "env \<Rightarrow> event \<Rightarrow> state \<Rightarrow> state" where
  "act e ev st = emit ev (tick e st)"

subsection \<open>\<^verbatim>\<open>usage\<close>\<close>

definition usage_lines :: "string list" where
  "usage_lines =
    [''usage: detectnet-pipeline [-h] [--network NETWORK] [--threshold THRESHOLD]\<newline>'',
     ''                        [--pipeline GST-PIPELINE] [--width WIDTH] [--height HEIGHT] [--depth DEPTH]\<newline>\<newline>'',
     ''Locate objects in a gst stream using an object detection DNN.\<newline>\<newline>'',
     ''optional arguments:\<newline>'',
     ''  --help            show this help message and exit\<newline>'',
     ''  --network NETWORK pre-trained model to load (see below for options)\<newline>'',
     ''  --overlay OVERLAY detection overlay flags (e.g. --overlay=box,labels,conf)\<newline>'',
     ''                    valid combinations are:  'box', 'labels', 'conf', 'none'\<newline>'',
     ''  --alpha ALPHA     overlay alpha blending value, range 0-255 (default: 120)\<newline>'',
     ''  --pipeline GST-PIPELINE gst-pipline as string, e.g.:,\<newline>'',
     ''                    rtspsrc location=rtsp://user:pw@192.168.0.170/Streaming/Channels/1 ! queue ! rtph264depay ! h264parse ! queue ! omxh264dec ! appsink name=mysink.\<newline>'',
     ''  --width WIDTH     desired width of pipeline stream (default is 1280 pixels)\<newline>'',
     ''  --height HEIGHT   desired height of pipeline stream (default is 720 pixels)\<newline>'',
     ''  --threshold VALUE minimum threshold for detection (default is 0.5)\<newline>\<newline>'']"

definition usage :: "env \<Rightarrow> state \<Rightarrow> int \<times> state" where
  "usage e st =
     (0, emit (Printf ''%s\<newline>'' [S (usage_text e)])
           (fold (\<lambda>l. emit (Printf l [])) usage_lines st))"

subsection \<open>The processing loop\<close>

text \<open>Lines 149 to 152: the capture, and the report when it fails. Nothing leaves the
  iteration here; \<^verbatim>\<open>imgRGBA\<close> is \<open>capture_img\<close> from now on.\<close>

definition capture :: "env \<Rightarrow> iter_input \<Rightarrow> state \<Rightarrow> state" where
  "capture e inp st =
     (let st1 = act e (Call_CaptureRGBA 1000) st
      in if \<not> capture_ok inp
         then emit (Printf ''detectnet-pipeline:  failed to capture RGBA image from pipeline\<newline>'' []) st1
         else st1)"

text \<open>Line 157.\<close>

definition detect :: "env \<Rightarrow> locals \<Rightarrow> iter_input \<Rightarrow> state \<Rightarrow> state" where
  "detect e l inp st =
     act e (Call_Detect (capture_img inp) (width l) (height l) (overlayFlags l)) st"

text \<open>Lines 165 and 166: the two lines printed for detection \<open>n\<close>.\<close>

definition print_detection :: "env \<Rightarrow> iter_input \<Rightarrow> nat \<Rightarrow> state \<Rightarrow> state" where
  "print_detection e inp n st =
     (let d = detections inp n;
          st1 = emit (Printf ''detected obj %i  class #%u (%s)  confidence=%f\<newline>''
                        [I (int n), U (ClassID d), S (class_desc e (ClassID d)), F (Confidence d)]) st
      in emit (Printf ''bounding box %i  (%f, %f)  (%f, %f)  w=%f  h=%f\<newline>''
                 [I (int n), F (Left d), F (Top d), F (Right d), F (Bottom d),
                  F (det_Width e d), F (det_Height e d)]) st1)"

text \<open>Lines 159 to 168.\<close>

definition report :: "env \<Rightarrow> iter_input \<Rightarrow> state \<Rightarrow> state" where
  "report e inp st =
     (if num_detections inp > 0
      then fold (print_detection e inp) [0 ..< nat (num_detections inp)]
             (emit (Printf ''%i objects detected\<newline>'' [I (num_detections inp)]) st)
      else st)"

text \<open>Lines 171 to 184.\<close>

definition update_display :: "env \<Rightarrow> locals \<Rightarrow> iter_input \<Rightarrow> state \<Rightarrow> state" where
  "update_display e l inp st =
     (if display l
      then (let st1 = act e (Call_RenderOnce (capture_img inp) (width l) (height l)) st;
                st2 = act e (Call_SetTitle ''TensorRT %i.%i.%i | %s | Network %.0f FPS''
                               [I (fst (tensorrt_version e)), I (fst (snd (tensorrt_version e))),
                                I (snd (snd (tensorrt_version e))), S (precision_str e),
                                F (network_fps inp)]) st1;
                st3 = act e Call_IsClosed st2
            in if is_closed inp then st3\<lparr>signal_recieved := True\<rparr> else st3)
      else st)"

text \<open>One pass through the loop body, lines 148 to 187.\<close>

definition body :: "env \<Rightarrow> locals \<Rightarrow> iter_input \<Rightarrow> state \<Rightarrow> state" where
  "body e l inp st = update_display e l inp (report e inp (detect e l inp (capture e inp st)))"

text \<open>\<^verbatim>\<open>while( !signal_recieved )\<close>. Each test of the condition is a delivery point. The loop
  has no other exit, so it may run forever: the result is \<open>None\<close> when the answers scripted
  in the list are used up and the condition still holds.\<close>

fun loop :: "env \<Rightarrow> locals \<Rightarrow> iter_input list \<Rightarrow> state \<Rightarrow> state option" where
  "loop e l [] st =
     (let st1 = tick e st in if signal_recieved st1 then Some st1 else None)"
| "loop e l (inp # rest) st =
     (let st1 = tick e st
      in if signal_recieved st1 then Some st1 else loop e l rest (body e l inp st1))"

subsection \<open>\<^verbatim>\<open>main\<close>\<close>

text \<open>\<^verbatim>\<open>SAFE_DELETE(x)\<close> is a macro of a header outside this file: it deletes \<open>x\<close> when \<open>x\<close> is not
  null.\<close>

definition SAFE_DELETE :: "env \<Rightarrow> collab \<Rightarrow> bool \<Rightarrow> state \<Rightarrow> state" where
  "SAFE_DELETE e c nonnull st = (if nonnull then act e (Delete c) st else st)"

definition initial :: state where
  "initial = \<lparr>signal_recieved = False, handler_installed = False, clock = 0, out = []\<rparr>"

text \<open>Lines 79 and 80.\<close>

definition attach_handler :: "env \<Rightarrow> state \<Rightarrow> state" where
  "attach_handler e st =
     (let st1 = act e Call_signal st
      in if signal_ok e then st1\<lparr>handler_installed := True\<rparr>
         else emit (Printf ''\<newline>can't catch SIGINT\<newline>'' []) st1)"

text \<open>Lines 97 to 100.\<close>

definition print_device :: "uint32 \<times> uint32 \<times> uint32 \<Rightarrow> state \<Rightarrow> state" where
  "print_device p st =
     emit (Printf ''    depth:  %u (bpp)\<newline>\<newline>'' [U (snd (snd p))])
       (emit (Printf ''   height:  %u\<newline>'' [U (fst (snd p))])
         (emit (Printf ''    width:  %u\<newline>'' [U (fst p)])
           (emit (Printf ''\<newline>detectnet-pipeline:  successfully initialized pipeline device\<newline>'' []) st)))"

text \<open>Lines 70 to 138: everything before the loop. \<open>Inl\<close> when \<^verbatim>\<open>main\<close> ends there,
  \<open>Inr\<close> with the locals and the state at the first test of the loop condition otherwise.
  Line 127 calls \<^verbatim>\<open>SetViewport\<close> through \<^verbatim>\<open>display\<close> whether or not it is null.\<close>

definition startup :: "env \<Rightarrow> (stop \<times> state) + (locals \<times> state)" where
  "startup e =
     (if help_flag e then (case usage e initial of (r, st) \<Rightarrow> Inl (Return r, st))
      else
        let st1 = attach_handler e initial;
            st2 = act e (Call_Create Pipeline) st1
        in case pipeline_create e of
             None \<Rightarrow>
               Inl (Return 0,
                    emit (Printf ''\<newline>detectnet-pipeline:  failed to initialize pipeline device\<newline>'' []) st2)
           | Some p \<Rightarrow>
               let st3 = print_device p st2;
                   st4 = act e (Call_Create Net) st3
               in if \<not> net_create e
                  then Inl (Return 0,
                            emit (Printf ''detectnet-pipeline:   failed to load detectNet model\<newline>'' []) st4)
                  else
                    let st5 = act e (Call_Create Display) st4;
                        st6 = (if \<not> display_create e
                               then emit (Printf ''detectnet-pipeline:  failed to create openGL display\<newline>'' []) st5
                               else st5)
                    in if \<not> display_create e then Inl (NullDereference, st6)
                       else
                         let st7 = act e (Call_SetViewport 10 10 (fst p) (fst (snd p))) st6;
                             st8 = act e Call_Open st7
                         in if \<not> pipeline_open e
                            then Inl (Return 0,
                                      emit (Printf ''detectnet-pipeline:  failed to open pipeline for streaming\<newline>'' []) st8)
                            else Inr (\<lparr>width = fst p, height = fst (snd p),
                                       overlayFlags = overlay_flags e,
                                       display = display_create e\<rparr>,
                                      emit (Printf ''detectnet-pipeline:  pipeline open for streaming\<newline>'' []) st8))"

text \<open>Lines 194 to 201.\<close>

definition teardown :: "env \<Rightarrow> locals \<Rightarrow> state \<Rightarrow> stop \<times> state" where
  "teardown e l st =
     (let st1 = emit (Printf ''detectnet-pipeline:  shutting down...\<newline>'' []) st;
          st2 = SAFE_DELETE e Pipeline True st1;
          st3 = SAFE_DELETE e Display (display l) st2;
          st4 = SAFE_DELETE e Net True st3
      in (Return 0, emit (Printf ''detectnet-pipeline:  shutdown complete.\<newline>'' []) st4))"

text \<open>\<^verbatim>\<open>main\<close>: \<open>None\<close> when the loop has not ended within the scripted iterations.\<close>

definition main :: "env \<Rightarrow> (stop \<times> state) option" where
  "main e =
     (case startup e of
        Inl r \<Rightarrow> Some r
      | Inr (l, st) \<Rightarrow>
          (case loop e l (iterations e) st of
             None \<Rightarrow> None
           | Some st' \<Rightarrow> Some (teardown e l st')))"

section \<open>Observing a run\<close>

text \<open>The result of \<^verbatim>\<open>main\<close> taken apart: how the process ended, what it printed and
  called, and the value of \<^verbatim>\<open>signal_recieved\<close> at the end.\<close>

definition exit_status :: "env \<Rightarrow> stop option" where
  "exit_status e = map_option fst (main e)"

definition trace :: "env \<Rightarrow> event list option" where
  "trace e = map_option (\<lambda>r. out (snd r)) (main e)"

definition final_flag :: "env \<Rightarrow> bool option" where
  "final_flag e = map_option (\<lambda>r. signal_recieved (snd r)) (main e)"

text \<open>The one line in a trace that \<^verbatim>\<open>main\<close> does not print itself is the line of
  \<^verbatim>\<open>sig_handler\<close>.\<close>

definition from_main :: "event \<Rightarrow> bool" where
  "from_main ev = (ev \<noteq> Printf ''received SIGINT\<newline>'' [])"

text \<open>What a later state has added to the trace of an earlier one.\<close>

definition events_since :: "state \<Rightarrow> state \<Rightarrow> event list" where
  "events_since st st' = drop (length (out st)) (out st')"

text \<open>The collaborators in the order in which they are deleted, and the number of
  \<^verbatim>\<open>CaptureRGBA\<close> calls, which is the number of passes through the loop body that have begun.\<close>

fun releases :: "event list \<Rightarrow> collab list" where
  "releases [] = []"
| "releases (Delete c # tr) = c # releases tr"
| "releases (ev # tr) = releases tr"

definition release_order :: "env \<Rightarrow> collab list option" where
  "release_order e = map_option releases (trace e)"

fun is_capture :: "event \<Rightarrow> bool" where
  "is_capture (Call_CaptureRGBA t) = True"
| "is_capture ev = False"

definition captures :: "event list \<Rightarrow> nat" where
  "captures tr = length (filter is_capture tr)"

text \<open>Lines printed, and calls of \<^verbatim>\<open>Detect\<close>.\<close>

fun is_printf :: "event \<Rightarrow> bool" where
  "is_printf (Printf fmt args) = True"
| "is_printf ev = False"

fun is_detect :: "event \<Rightarrow> bool" where
  "is_detect (Call_Detect img w h flags) = True"
| "is_detect ev = False"

text \<open>The lines of the detection report, lines 161 to 166.\<close>

fun is_report_line :: "event \<Rightarrow> bool" where
  "is_report_line (Printf fmt args) =
     (fmt = ''%i objects detected\<newline>'' \<or>
      fmt = ''detected obj %i  class #%u (%s)  confidence=%f\<newline>'' \<or>
      fmt = ''bounding box %i  (%f, %f)  (%f, %f)  w=%f  h=%f\<newline>'')"
| "is_report_line ev = False"

text \<open>Two states that differ at most in the lines of the detection report: the flag, the
  registration of the handler, the delivery point and every other event agree.\<close>

definition same_flow :: "state \<Rightarrow> state \<Rightarrow> bool" where
  "same_flow st st' =
     (signal_recieved st = signal_recieved st' \<and> handler_installed st = handler_installed st' \<and>
      clock st = clock st' \<and>
      filter (\<lambda>ev. \<not> is_report_line ev) (out st) = filter (\<lambda>ev. \<not> is_report_line ev) (out st'))"

text \<open>Two states that differ at most in the flag.\<close>

definition same_but_flag :: "state \<Rightarrow> state \<Rightarrow> bool" where
  "same_but_flag st st' =
     (handler_installed st = handler_installed st' \<and> clock st = clock st' \<and> out st = out st')"

text \<open>Whether \<^verbatim>\<open>main\<close> gets as far as the loop, whether the flag is already set when it does,
  and the state in which startup ends.\<close>

definition reaches_streaming :: "env \<Rightarrow> bool" where
  "reaches_streaming e = (case startup e of Inl r \<Rightarrow> False | Inr x \<Rightarrow> True)"

definition cancelled_at_entry :: "env \<Rightarrow> bool" where
  "cancelled_at_entry e = (case startup e of Inl r \<Rightarrow> False | Inr x \<Rightarrow> signal_recieved (snd x))"

definition entry :: "env \<Rightarrow> state" where
  "entry e = (case startup e of Inl r \<Rightarrow> snd r | Inr x \<Rightarrow> snd x)"

subsection \<open>The events of one pass through the loop body\<close>

text \<open>What each part of the loop body adds to the trace when no signal arrives. That the
  body adds exactly these events, with the handler's line in between where a signal does
  arrive, is lemma \<open>extends_body\<close> below.\<close>

definition capture_events :: "iter_input \<Rightarrow> event list" where
  "capture_events inp =
     Call_CaptureRGBA 1000 #
     (if capture_ok inp then []
      else [Printf ''detectnet-pipeline:  failed to capture RGBA image from pipeline\<newline>'' []])"

definition detection_lines :: "env \<Rightarrow> iter_input \<Rightarrow> nat \<Rightarrow> event list" where
  "detection_lines e inp n =
     [Printf ''detected obj %i  class #%u (%s)  confidence=%f\<newline>''
        [I (int n), U (ClassID (detections inp n)), S (class_desc e (ClassID (detections inp n))),
         F (Confidence (detections inp n))],
      Printf ''bounding box %i  (%f, %f)  (%f, %f)  w=%f  h=%f\<newline>''
        [I (int n), F (Left (detections inp n)), F (Top (detections inp n)),
         F (Right (detections inp n)), F (Bottom (detections inp n)),
         F (det_Width e (detections inp n)), F (det_Height e (detections inp n))]]"

definition report_events :: "env \<Rightarrow> iter_input \<Rightarrow> event list" where
  "report_events e inp =
     (if num_detections inp > 0
      then Printf ''%i objects detected\<newline>'' [I (num_detections inp)] #
           concat (map (detection_lines e inp) [0 ..< nat (num_detections inp)])
      else [])"

definition display_events :: "env \<Rightarrow> locals \<Rightarrow> iter_input \<Rightarrow> event list" where
  "display_events e l inp =
     (if display l
      then [Call_RenderOnce (capture_img inp) (width l) (height l),
            Call_SetTitle ''TensorRT %i.%i.%i | %s | Network %.0f FPS''
              [I (fst (tensorrt_version e)), I (fst (snd (tensorrt_version e))),
               I (snd (snd (tensorrt_version e))), S (precision_str e), F (network_fps inp)],
            Call_IsClosed]
      else [])"

definition body_events :: "env \<Rightarrow> locals \<Rightarrow> iter_input \<Rightarrow> event list" where
  "body_events e l inp =
     capture_events inp @
     [Call_Detect (capture_img inp) (width l) (height l) (overlayFlags l)] @
     report_events e inp @ display_events e l inp"

text \<open>\<open>extends st st' evs\<close>: \<open>st'\<close> continues the trace of \<open>st\<close>, and what \<^verbatim>\<open>main\<close> itself has
  added is \<open>evs\<close>.\<close>

definition extends :: "state \<Rightarrow> state \<Rightarrow> event list \<Rightarrow> bool" where
  "extends st st' evs = (\<exists>xs. out st' = out st @ xs \<and> filter from_main xs = evs)"

subsection \<open>Concrete environments\<close>

text \<open>Schedules of handler invocations: none at all, and one \<^verbatim>\<open>SIGINT\<close> at delivery point
  \<open>k\<close>.\<close>

definition quiet :: "nat \<Rightarrow> int option" where
  "quiet t = None"

definition sigint_at :: "nat \<Rightarrow> nat \<Rightarrow> int option" where
  "sigint_at k t = (if t = k then Some SIGINT else None)"

text \<open>One pass in which the capture succeeds or not, \<^verbatim>\<open>Detect\<close> returns \<open>n\<close>, and the window is
  closed or not.\<close>

definition det0 :: Detection where
  "det0 = \<lparr>ClassID = 0, Confidence = 0, Left = 0, Top = 0, Right = 0, Bottom = 0\<rparr>"

definition frame :: "bool \<Rightarrow> int \<Rightarrow> bool \<Rightarrow> iter_input" where
  "frame ok n closed =
     \<lparr>capture_ok = ok, capture_img = (if ok then Addr 1 else NULL), num_detections = n,
      detections = (\<lambda>k. det0), network_fps = 0, is_closed = closed\<rparr>"

text \<open>A run in which the pipeline (1280 by 720) and the network come up, the display does
  if \<open>disp\<close> holds, and the passes of the loop are answered by \<open>its\<close>.\<close>

definition script :: "(nat \<Rightarrow> int option) \<Rightarrow> bool \<Rightarrow> iter_input list \<Rightarrow> env" where
  "script sched disp its =
     \<lparr>help_flag = False, usage_text = '''', signal_ok = True, handler_calls = sched,
      pipeline_create = Some (1280, 720, 12), net_create = True, overlay_flags = 7,
      display_create = disp, pipeline_open = True, class_desc = (\<lambda>c. ''''),
      det_Width = (\<lambda>d. 0), det_Height = (\<lambda>d. 0), tensorrt_version = (5, 0, 6),
      precision_str = ''FP16'', iterations = its\<rparr>"

definition locals0 :: locals where
  "locals0 = \<lparr>width = 1280, height = 720, overlayFlags = 7, display = True\<rparr>"

text \<open>A run in which \<^verbatim>\<open>Open\<close> fails, and one in which the window is closed during the third
  pass and no signal arrives.\<close>

definition open_fails :: env where
  "open_fails = (script quiet True [])\<lparr>pipeline_open := False\<rparr>"

definition closes_on_third :: env where
  "closes_on_third =
     script quiet True [frame True 0 False, frame True 1 False, frame True 0 True, frame True 0 False]"

text \<open>A run in which the window is closed during the first pass and no signal arrives.\<close>

definition closes_at_once :: env where
  "closes_at_once = script quiet True [frame True 0 True]"

section \<open>Properties of the steps\<close>

subsection \<open>Steps, delivery points and calls\<close>

lemma emit_fields [simp]:
  "signal_recieved (emit ev st) = signal_recieved st"
  "handler_installed (emit ev st) = handler_installed st"
  "clock (emit ev st) = clock st"
  "out (emit ev st) = out st @ [ev]"
  by (simp_all add: emit_def)

lemma tick_fields [simp]:
  "handler_installed (tick e st) = handler_installed st"
  "clock (tick e st) = Suc (clock st)"
  by (simp_all add: tick_def sig_handler_def split: option.split)

lemma tick_flag:
  "signal_recieved (tick e st) =
     (signal_recieved st \<or> (handler_installed st \<and> handler_calls e (clock st) = Some SIGINT))"
  by (auto simp add: tick_def sig_handler_def split: option.split)

lemma extends_refl: "extends st st []"
  by (simp add: extends_def)

lemma extends_trans:
  "extends st st' xs \<Longrightarrow> extends st' st'' ys \<Longrightarrow> extends st st'' (xs @ ys)"
  by (auto simp add: extends_def)

lemma extends_emit: "from_main ev \<Longrightarrow> extends st (emit ev st) [ev]"
  by (simp add: extends_def)

lemma extends_tick: "extends st (tick e st) []"
  by (simp add: extends_def tick_def sig_handler_def from_main_def split: option.split)

lemma extends_act: "from_main ev \<Longrightarrow> extends st (act e ev st) [ev]"
  using extends_trans [OF extends_tick extends_emit] by (simp add: act_def)

lemma act_fields [simp]:
  "handler_installed (act e ev st) = handler_installed st"
  "clock (act e ev st) = Suc (clock st)"
  by (simp_all add: act_def)

lemma act_flag:
  "signal_recieved (act e ev st) =
     (signal_recieved st \<or> (handler_installed st \<and> handler_calls e (clock st) = Some SIGINT))"
  by (simp add: act_def tick_flag)

subsection \<open>The parts of the loop body\<close>

text \<open>Each part continues the trace by its events, passes a fixed number of delivery points,
  and sets the flag only through the handler or, in the display step, through \<^verbatim>\<open>IsClosed\<close>.\<close>

lemma extends_capture: "extends st (capture e inp st) (capture_events inp)"
proof (cases "capture_ok inp")
  case True
  then show ?thesis
    using extends_act [of "Call_CaptureRGBA 1000" st e]
    by (simp add: capture_def capture_events_def from_main_def)
next
  case False
  have "extends st (emit (Printf ''detectnet-pipeline:  failed to capture RGBA image from pipeline\<newline>'' [])
          (act e (Call_CaptureRGBA 1000) st))
        ([Call_CaptureRGBA 1000] @ [Printf ''detectnet-pipeline:  failed to capture RGBA image from pipeline\<newline>'' []])"
    by (rule extends_trans [OF extends_act extends_emit]) (simp_all add: from_main_def)
  with False show ?thesis
    by (simp add: capture_def capture_events_def)
qed

lemma capture_fields [simp]:
  "handler_installed (capture e inp st) = handler_installed st"
  "clock (capture e inp st) = Suc (clock st)"
  by (simp_all add: capture_def Let_def)

lemma capture_flag:
  "signal_recieved (capture e inp st) =
     (signal_recieved st \<or> (handler_installed st \<and> handler_calls e (clock st) = Some SIGINT))"
  by (simp add: capture_def Let_def act_flag)

lemma extends_detect:
  "extends st (detect e l inp st) [Call_Detect (capture_img inp) (width l) (height l) (overlayFlags l)]"
  unfolding detect_def by (rule extends_act) (simp add: from_main_def)

lemma detect_fields [simp]:
  "handler_installed (detect e l inp st) = handler_installed st"
  "clock (detect e l inp st) = Suc (clock st)"
  by (simp_all add: detect_def)

lemma detect_flag:
  "signal_recieved (detect e l inp st) =
     (signal_recieved st \<or> (handler_installed st \<and> handler_calls e (clock st) = Some SIGINT))"
  by (simp add: detect_def act_flag)

lemma print_detection_fields [simp]:
  "signal_recieved (print_detection e inp n st) = signal_recieved st"
  "handler_installed (print_detection e inp n st) = handler_installed st"
  "clock (print_detection e inp n st) = clock st"
  "out (print_detection e inp n st) = out st @ detection_lines e inp n"
  by (simp_all add: print_detection_def detection_lines_def Let_def)

lemma fold_print_detection_fields [simp]:
  "signal_recieved (fold (print_detection e inp) ns st) = signal_recieved st"
  "handler_installed (fold (print_detection e inp) ns st) = handler_installed st"
  "clock (fold (print_detection e inp) ns st) = clock st"
  "out (fold (print_detection e inp) ns st) = out st @ concat (map (detection_lines e inp) ns)"
  by (induction ns arbitrary: st) simp_all

lemma report_fields [simp]:
  "signal_recieved (report e inp st) = signal_recieved st"
  "handler_installed (report e inp st) = handler_installed st"
  "clock (report e inp st) = clock st"
  "out (report e inp st) = out st @ report_events e inp"
  by (simp_all add: report_def report_events_def)

lemma from_main_detection_lines: "filter from_main (detection_lines e inp n) = detection_lines e inp n"
  by (simp add: detection_lines_def from_main_def)

lemma from_main_report_events: "filter from_main (report_events e inp) = report_events e inp"
  by (simp add: report_events_def from_main_def from_main_detection_lines filter_concat comp_def)

lemma extends_report: "extends st (report e inp st) (report_events e inp)"
  by (simp add: extends_def from_main_report_events)

lemma extends_update_display:
  "extends st (update_display e l inp st) (display_events e l inp)"
proof (cases "display l")
  case False
  then show ?thesis
    by (simp add: update_display_def display_events_def extends_refl)
next
  case True
  let ?r = "Call_RenderOnce (capture_img inp) (width l) (height l)"
  let ?t = "Call_SetTitle ''TensorRT %i.%i.%i | %s | Network %.0f FPS''
              [I (fst (tensorrt_version e)), I (fst (snd (tensorrt_version e))),
               I (snd (snd (tensorrt_version e))), S (precision_str e), F (network_fps inp)]"
  let ?st3 = "act e Call_IsClosed (act e ?t (act e ?r st))"
  have "extends st ?st3 (([?r] @ [?t]) @ [Call_IsClosed])"
    by (rule extends_trans [OF extends_trans [OF extends_act extends_act] extends_act])
      (simp_all add: from_main_def)
  then have "extends st (?st3\<lparr>signal_recieved := True\<rparr>) [?r, ?t, Call_IsClosed]"
    and "extends st ?st3 [?r, ?t, Call_IsClosed]"
    by (simp_all add: extends_def)
  with True show ?thesis
    by (simp add: update_display_def display_events_def Let_def)
qed

lemma update_display_fields [simp]:
  "handler_installed (update_display e l inp st) = handler_installed st"
  "clock (update_display e l inp st) = clock st + (if display l then 3 else 0)"
  by (simp_all add: update_display_def Let_def)

lemma update_display_flag:
  "signal_recieved (update_display e l inp st) =
     (signal_recieved st \<or> (display l \<and> is_closed inp) \<or>
      (display l \<and> handler_installed st \<and>
       (handler_calls e (clock st) = Some SIGINT \<or> handler_calls e (Suc (clock st)) = Some SIGINT \<or>
        handler_calls e (Suc (Suc (clock st))) = Some SIGINT)))"
  by (auto simp add: update_display_def Let_def act_flag)

lemma extends_body: "extends st (body e l inp st) (body_events e l inp)"
  unfolding body_def body_events_def
  by (rule extends_trans [OF extends_capture
        extends_trans [OF extends_detect extends_trans [OF extends_report extends_update_display]]])

lemma body_fields [simp]:
  "handler_installed (body e l inp st) = handler_installed st"
  "clock (body e l inp st) = clock st + (if display l then 5 else 2)"
  by (simp_all add: body_def)

lemma range_ex: "(\<exists>t. c \<le> t \<and> t < c + n \<and> P t) = (\<exists>k<n. P (c + k))" for c :: nat
proof
  assume "\<exists>t. c \<le> t \<and> t < c + n \<and> P t"
  then obtain t where t: "c \<le> t" "t < c + n" "P t" by blast
  then have "t - c < n" "P (c + (t - c))" by simp_all
  then show "\<exists>k<n. P (c + k)" by blast
next
  assume "\<exists>k<n. P (c + k)"
  then obtain k where "k < n" "P (c + k)" by blast
  then have "c \<le> c + k \<and> c + k < c + n \<and> P (c + k)" by simp
  then show "\<exists>t. c \<le> t \<and> t < c + n \<and> P t" by blast
qed

lemma body_flag_points:
  "signal_recieved (body e l inp st) =
     (signal_recieved st \<or> (display l \<and> is_closed inp) \<or>
      (handler_installed st \<and>
       (\<exists>k < (if display l then 5 else 2). handler_calls e (clock st + k) = Some SIGINT)))"
  by (auto simp add: body_def update_display_flag detect_flag capture_flag
        eval_nat_numeral Ex_less_Suc)

lemma body_flag:
  "signal_recieved (body e l inp st) =
     (signal_recieved st \<or> (display l \<and> is_closed inp) \<or>
      (handler_installed st \<and>
       (\<exists>t. clock st \<le> t \<and> t < clock (body e l inp st) \<and> handler_calls e t = Some SIGINT)))"
  unfolding body_fields range_ex by (rule body_flag_points)
subsection \<open>Releases and captures in a trace\<close>

lemma releases_append [simp]: "releases (xs @ ys) = releases xs @ releases ys"
  by (induction xs rule: releases.induct) simp_all

lemma releases_from_main [simp]: "releases (filter from_main xs) = releases xs"
  by (induction xs rule: releases.induct) (simp_all add: from_main_def)

lemma captures_simps [simp]:
  "captures [] = 0"
  "captures (ev # xs) = (if is_capture ev then 1 else 0) + captures xs"
  "captures (xs @ ys) = captures xs + captures ys"
  by (simp_all add: captures_def)

lemma captures_from_main [simp]: "captures (filter from_main xs) = captures xs"
  by (induction xs) (simp_all add: from_main_def)

lemma extends_releases: "extends st st' evs \<Longrightarrow> releases (out st') = releases (out st) @ releases evs"
  by (auto simp add: extends_def)

lemma extends_captures: "extends st st' evs \<Longrightarrow> captures (out st') = captures (out st) + captures evs"
  by (auto simp add: extends_def)

lemma releases_body_events [simp]: "releases (body_events e l inp) = []"
proof -
  have d: "releases (concat (map (detection_lines e inp) ns)) = []" for ns
    by (induction ns) (simp_all add: detection_lines_def)
  show ?thesis
    by (simp add: body_events_def capture_events_def report_events_def display_events_def d)
qed

lemma captures_body_events [simp]: "captures (body_events e l inp) = 1"
proof -
  have d: "captures (concat (map (detection_lines e inp) ns)) = 0" for ns
    by (induction ns) (simp_all add: detection_lines_def)
  show ?thesis
    by (simp add: body_events_def capture_events_def report_events_def display_events_def d)
qed

subsection \<open>The loop, startup and teardown\<close>

lemma loop_cancelled: "signal_recieved st \<Longrightarrow> loop e l its st = Some (tick e st)"
  by (cases its) (simp_all add: tick_flag)

lemma loop_extends:
  "loop e l its st = Some st' \<Longrightarrow>
   \<exists>n\<le>length its. extends st st' (concat (map (body_events e l) (take n its)))"
proof (induction its arbitrary: st)
  case Nil
  then show ?case
    using extends_tick [of st e] by (auto simp add: Let_def split: if_splits)
next
  case (Cons inp rest)
  show ?case
  proof (cases "signal_recieved (tick e st)")
    case True
    with Cons.prems have "st' = tick e st" by simp
    then have "extends st st' (concat (map (body_events e l) (take 0 (inp # rest))))"
      using extends_tick [of st e] by simp
    then show ?thesis by blast
  next
    case False
    with Cons.prems have "loop e l rest (body e l inp (tick e st)) = Some st'" by simp
    from Cons.IH [OF this] obtain n where n: "n \<le> length rest"
      "extends (body e l inp (tick e st)) st' (concat (map (body_events e l) (take n rest)))"
      by blast
    have "extends st (body e l inp (tick e st)) ([] @ body_events e l inp)"
      by (rule extends_trans [OF extends_tick extends_body])
    from extends_trans [OF this n(2)]
    have "extends st st' (concat (map (body_events e l) (take (Suc n) (inp # rest))))"
      by simp
    with n(1) show ?thesis
      by (metis Suc_le_mono length_Cons)
  qed
qed

lemma loop_releases: "loop e l its st = Some st' \<Longrightarrow> releases (out st') = releases (out st)"
proof -
  assume "loop e l its st = Some st'"
  from loop_extends [OF this] obtain n where
    x: "extends st st' (concat (map (body_events e l) (take n its)))" by blast
  have "releases (concat (map (body_events e l) xs)) = []" for xs
    by (induction xs) simp_all
  with extends_releases [OF x] show ?thesis by simp
qed

lemma releases_tick [simp]: "releases (out (tick e st)) = releases (out st)"
  using extends_releases [OF extends_tick] by simp

lemma captures_tick [simp]: "captures (out (tick e st)) = captures (out st)"
  using extends_captures [OF extends_tick] by simp

lemma startup_streaming:
  assumes "startup e = Inr (l, st)"
  shows "display l" and "releases (out st) = []" and "captures (out st) = 0"
    and "handler_installed st = signal_ok e"
    and "\<not> help_flag e" and "pipeline_create e \<noteq> None" and "net_create e"
    and "display_create e" and "pipeline_open e"
  using assms
  by (auto simp add: startup_def usage_def Let_def attach_handler_def print_device_def act_def
        initial_def
      split: if_splits option.splits prod.splits)

lemma teardown_result:
  "\<exists>st'. teardown e l st = (Return 0, st') \<and>
     releases (out st') = releases (out st) @ Pipeline # (if display l then [Display] else []) @ [Net] \<and>
     captures (out st') = captures (out st) \<and>
     last (out st') = Printf ''detectnet-pipeline:  shutdown complete.\<newline>'' []"
  by (simp add: teardown_def Let_def SAFE_DELETE_def act_def)

subsection \<open>The events of a pass, and passes that differ in the count only\<close>

lemma events_since_extends:
  "extends st st' evs \<Longrightarrow> filter from_main (events_since st st') = evs"
  by (auto simp add: extends_def events_since_def)

lemma events_since_body: "filter from_main (events_since st (body e l inp st)) = body_events e l inp"
  by (rule events_since_extends [OF extends_body])

lemma report_nonpositive: "num_detections inp \<le> 0 \<Longrightarrow> report e inp st = st"
  by (simp add: report_def)

lemma capture_num [simp]: "capture e (inp\<lparr>num_detections := n\<rparr>) st = capture e inp st"
  by (simp add: capture_def)

lemma detect_num [simp]: "detect e l (inp\<lparr>num_detections := n\<rparr>) st = detect e l inp st"
  by (simp add: detect_def)

lemma update_display_num [simp]:
  "update_display e l (inp\<lparr>num_detections := n\<rparr>) st = update_display e l inp st"
  by (simp add: update_display_def)

subsection \<open>Runs without signals\<close>

lemma startup_quiet:
  assumes "startup e = Inr (l, st)" and "\<forall>t. handler_calls e t \<noteq> Some SIGINT"
  shows "\<not> signal_recieved st"
  using assms
  by (auto simp add: startup_def usage_def Let_def attach_handler_def print_device_def act_flag
        initial_def tick_flag act_def
      split: if_splits option.splits prod.splits)

lemma loop_display_close:
  assumes "\<forall>t. handler_calls e t \<noteq> Some SIGINT" and "display l" and "\<not> signal_recieved st"
    and "k < length its" and "is_closed (its ! k)" and "\<forall>j<k. \<not> is_closed (its ! j)"
  shows "\<exists>st'. loop e l its st = Some st' \<and> captures (out st') = captures (out st) + Suc k"
  using assms(3-)
proof (induction its arbitrary: st k)
  case Nil
  then show ?case by simp
next
  case (Cons inp rest)
  let ?st1 = "tick e st"
  let ?st2 = "body e l inp ?st1"
  from Cons.prems(1) assms(1) have f1: "\<not> signal_recieved ?st1"
    by (simp add: tick_flag)
  have c2: "captures (out ?st2) = captures (out st) + 1"
    using extends_captures [OF extends_trans [OF extends_tick extends_body]]
    by simp
  show ?case
  proof (cases k)
    case 0
    with Cons.prems(3) assms(2) have "signal_recieved ?st2"
      by (simp add: body_flag)
    then have "loop e l rest ?st2 = Some (tick e ?st2)"
      by (rule loop_cancelled)
    with f1 c2 0 show ?thesis by simp
  next
    case (Suc k')
    with Cons.prems(4) have "\<not> is_closed inp" by auto
    with f1 assms(1) have f2: "\<not> signal_recieved ?st2"
      by (simp add: body_flag)
    from Suc Cons.prems have "k' < length rest" "is_closed (rest ! k')"
      "\<forall>j<k'. \<not> is_closed (rest ! j)" by auto
    from Cons.IH [OF f2 this] obtain st' where
      "loop e l rest ?st2 = Some st'" "captures (out st') = captures (out ?st2) + Suc k'"
      by blast
    with f1 c2 Suc show ?thesis by simp
  qed
qed

subsection \<open>States that agree up to the detection report\<close>

lemma same_flow_refl: "same_flow st st"
  by (simp add: same_flow_def)

lemma same_flow_emit: "same_flow a b \<Longrightarrow> same_flow (emit ev a) (emit ev b)"
  by (simp add: same_flow_def)

lemma same_flow_tick: "same_flow a b \<Longrightarrow> same_flow (tick e a) (tick e b)"
  by (auto simp add: same_flow_def tick_def sig_handler_def split: option.split)

lemma same_flow_act: "same_flow a b \<Longrightarrow> same_flow (act e ev a) (act e ev b)"
  by (simp add: act_def same_flow_emit same_flow_tick)

lemma same_flow_capture: "same_flow a b \<Longrightarrow> same_flow (capture e inp a) (capture e inp b)"
  by (simp add: capture_def Let_def same_flow_emit same_flow_act)

lemma same_flow_detect: "same_flow a b \<Longrightarrow> same_flow (detect e l inp a) (detect e l inp b)"
  by (simp add: detect_def same_flow_act)

lemma report_events_lines: "filter (\<lambda>ev. \<not> is_report_line ev) (report_events e inp) = []"
proof -
  have "filter (\<lambda>ev. \<not> is_report_line ev) (concat (map (detection_lines e inp) ns)) = []" for ns
    by (induction ns) (simp_all add: detection_lines_def)
  then show ?thesis by (simp add: report_events_def)
qed

lemma same_flow_report: "same_flow a b \<Longrightarrow> same_flow (report e inp a) (report e inp' b)"
  by (simp add: same_flow_def report_events_lines)

lemma same_flow_flag: "same_flow a b \<Longrightarrow> same_flow (a\<lparr>signal_recieved := True\<rparr>) (b\<lparr>signal_recieved := True\<rparr>)"
  by (simp add: same_flow_def)

lemma same_flow_update_display:
  "same_flow a b \<Longrightarrow> same_flow (update_display e l inp a) (update_display e l inp b)"
  by (simp add: update_display_def Let_def same_flow_act same_flow_flag)

lemma same_flow_body: "same_flow a b \<Longrightarrow> same_flow (body e l inp a) (body e l inp b)"
  by (simp add: body_def same_flow_update_display same_flow_report same_flow_detect same_flow_capture)

lemma same_flow_loop: "same_flow a b \<Longrightarrow> rel_option same_flow (loop e l its a) (loop e l its b)"
proof (induction its arbitrary: a b)
  case Nil
  from same_flow_tick [OF Nil, of e] show ?case
    by (auto simp add: Let_def same_flow_def)
next
  case (Cons inp rest)
  note t = same_flow_tick [OF Cons.prems, of e]
  then have f: "signal_recieved (tick e a) = signal_recieved (tick e b)"
    by (simp add: same_flow_def)
  show ?case
  proof (cases "signal_recieved (tick e a)")
    case True
    with f t show ?thesis by simp
  next
    case False
    with f Cons.IH [OF same_flow_body [OF t, of e l inp]] show ?thesis by simp
  qed
qed

lemma report_line_from_main: "is_report_line ev \<Longrightarrow> from_main ev"
  by (cases ev) (auto simp add: from_main_def)

lemma report_lines_since:
  "filter is_report_line (events_since st (body e l inp st)) = filter is_report_line (body_events e l inp)"
proof -
  have "filter is_report_line (filter from_main xs) = filter is_report_line xs" for xs
    by (induction xs) (auto dest: report_line_from_main)
  from this [of "events_since st (body e l inp st)"] show ?thesis
    by (simp only: events_since_body)
qed

subsection \<open>Runs that reach the loop and end\<close>

lemma main_streaming:
  assumes "reaches_streaming e" and "main e \<noteq> None"
  obtains l st0 st1 st where "startup e = Inr (l, st0)" and "loop e l (iterations e) st0 = Some st1"
    and "teardown e l st1 = (Return 0, st)" and "main e = Some (Return 0, st)"
proof -
  from assms(1) obtain l st0 where s: "startup e = Inr (l, st0)"
    by (auto simp add: reaches_streaming_def split: sum.splits)
  with assms(2) obtain st1 where l: "loop e l (iterations e) st0 = Some st1"
    by (auto simp add: main_def split: option.splits)
  from teardown_result [of e l st1] obtain st where t: "teardown e l st1 = (Return 0, st)"
    by blast
  with s l have "main e = Some (Return 0, st)"
    by (simp add: main_def)
  with s l t show thesis by (rule that)
qed

subsection \<open>Who writes the flag, and who reads it\<close>

text \<open>Startup, the loop and teardown set the flag through the handler only, the loop body
  also when the window is closed; and what each step does apart from that does not depend
  on the flag.\<close>

lemma range_Suc:
  "(\<exists>t. a \<le> t \<and> t < Suc b \<and> P t) = ((a \<le> b \<and> P b) \<or> (\<exists>t. a \<le> t \<and> t < b \<and> P t))"
  for a b :: nat
  by (metis less_Suc_eq)

lemma teardown_fields:
  "handler_installed (snd (teardown e l st)) = handler_installed st"
  "clock (snd (teardown e l st)) = clock st + (if display l then 3 else 2)"
  "captures (out (snd (teardown e l st))) = captures (out st)"
  by (simp_all add: teardown_def Let_def SAFE_DELETE_def act_def)

lemma teardown_flag:
  "signal_recieved (snd (teardown e l st)) =
     (signal_recieved st \<or>
      (handler_installed st \<and>
       (\<exists>t. clock st \<le> t \<and> t < clock (snd (teardown e l st)) \<and> handler_calls e t = Some SIGINT)))"
  unfolding teardown_fields range_ex
  by (auto simp add: teardown_def Let_def SAFE_DELETE_def act_flag eval_nat_numeral Ex_less_Suc)

lemma fold_emit_fields:
  "signal_recieved (fold (\<lambda>l. emit (Printf l [])) ls st) = signal_recieved st"
  "handler_installed (fold (\<lambda>l. emit (Printf l [])) ls st) = handler_installed st"
  "clock (fold (\<lambda>l. emit (Printf l [])) ls st) = clock st"
  "out (fold (\<lambda>l. emit (Printf l [])) ls st) = out st @ map (\<lambda>l. Printf l []) ls"
  by (induction ls arbitrary: st) simp_all

lemma captures_printfs: "captures (map (\<lambda>l. Printf l []) ls) = 0"
  by (induction ls) simp_all

lemma entry_flag:
  "signal_recieved (entry e) =
     (signal_ok e \<and> (\<exists>t. 1 \<le> t \<and> t < clock (entry e) \<and> handler_calls e t = Some SIGINT))"
  by (simp add: entry_def startup_def usage_def Let_def attach_handler_def print_device_def
        act_flag initial_def act_def tick_flag range_Suc fold_emit_fields
      split: option.split) blast

lemma entry_fields:
  "captures (out (entry e)) = 0"
  "reaches_streaming e \<Longrightarrow> handler_installed (entry e) = signal_ok e"
  "reaches_streaming e \<Longrightarrow> 1 \<le> clock (entry e)"
  by (auto simp add: entry_def reaches_streaming_def startup_def usage_def Let_def attach_handler_def
        print_device_def initial_def act_def fold_emit_fields captures_printfs
      split: option.splits if_splits)

lemma loop_Some_flag: "loop e l its st = Some st' \<Longrightarrow> signal_recieved st'"
  by (induction its arbitrary: st) (auto simp add: Let_def split: if_splits)

lemma loop_flag:
  assumes "loop e l its st = Some st'"
  shows "\<exists>n\<le>length its.
           captures (out st') = captures (out st) + n \<and>
           handler_installed st' = handler_installed st \<and> clock st \<le> clock st' \<and>
           (signal_recieved st \<or> (display l \<and> (\<exists>i<n. is_closed (its ! i))) \<or>
            (handler_installed st \<and>
             (\<exists>t. clock st \<le> t \<and> t < clock st' \<and> handler_calls e t = Some SIGINT)))"
  using assms
proof (induction its arbitrary: st)
  case Nil
  then have "st' = tick e st" "signal_recieved (tick e st)"
    by (auto simp add: Let_def split: if_splits)
  then show ?case
    by (auto simp add: tick_flag)
next
  case (Cons inp rest)
  let ?st1 = "tick e st"
  let ?st2 = "body e l inp ?st1"
  show ?case
  proof (cases "signal_recieved ?st1")
    case True
    with Cons.prems have "st' = ?st1" by simp
    with True have "0 \<le> length (inp # rest) \<and> captures (out st') = captures (out st) + 0 \<and>
        handler_installed st' = handler_installed st \<and> clock st \<le> clock st' \<and>
        (signal_recieved st \<or> (display l \<and> (\<exists>i<0. is_closed ((inp # rest) ! i))) \<or>
         (handler_installed st \<and>
          (\<exists>t. clock st \<le> t \<and> t < clock st' \<and> handler_calls e t = Some SIGINT)))"
      by (auto simp add: tick_flag)
    then show ?thesis by (rule exI [of _ 0])
  next
    case False
    with Cons.prems have "loop e l rest ?st2 = Some st'" by simp
    from Cons.IH [OF this] obtain m where m: "m \<le> length rest"
      and c: "captures (out st') = captures (out ?st2) + m"
      and i: "handler_installed st' = handler_installed ?st2"
      and k: "clock ?st2 \<le> clock st'"
      and f: "signal_recieved ?st2 \<or> (display l \<and> (\<exists>i<m. is_closed (rest ! i))) \<or>
            (handler_installed ?st2 \<and>
             (\<exists>t. clock ?st2 \<le> t \<and> t < clock st' \<and> handler_calls e t = Some SIGINT))"
      by blast
    have c2: "captures (out ?st2) = captures (out st) + 1"
      using extends_captures [OF extends_trans [OF extends_tick extends_body]] by simp
    have k2: "clock st \<le> clock ?st2" by simp
    have "signal_recieved st \<or> (display l \<and> (\<exists>i<Suc m. is_closed ((inp # rest) ! i))) \<or>
        (handler_installed st \<and>
         (\<exists>t. clock st \<le> t \<and> t < clock st' \<and> handler_calls e t = Some SIGINT))"
    proof -
      consider (a) "signal_recieved ?st2" | (b) "display l" "\<exists>i<m. is_closed (rest ! i)"
        | (c) "handler_installed st" "\<exists>t. clock ?st2 \<le> t \<and> t < clock st' \<and> handler_calls e t = Some SIGINT"
        using f by auto
      then show ?thesis
      proof cases
        case a
        with False consider (a1) "display l" "is_closed inp"
          | (a2) "handler_installed st"
              "\<exists>t. clock ?st1 \<le> t \<and> t < clock ?st2 \<and> handler_calls e t = Some SIGINT"
          by (auto simp add: body_flag)
        then show ?thesis
        proof cases
          case a1
          then have "display l \<and> (\<exists>i<Suc m. is_closed ((inp # rest) ! i))"
            by (intro conjI exI [of _ 0]) simp_all
          then show ?thesis by blast
        next
          case a2
          then obtain t where "clock ?st1 \<le> t" "t < clock ?st2" "handler_calls e t = Some SIGINT"
            by blast
          with k have "clock st \<le> t \<and> t < clock st' \<and> handler_calls e t = Some SIGINT"
            by simp
          with a2(1) show ?thesis by blast
        qed
      next
        case b
        then obtain i where "i < m" "is_closed (rest ! i)" by blast
        then have "Suc i < Suc m \<and> is_closed ((inp # rest) ! Suc i)" by simp
        with b(1) show ?thesis by blast
      next
        case c
        then obtain t where "clock ?st2 \<le> t" "t < clock st'" "handler_calls e t = Some SIGINT"
          by blast
        with k2 have "clock st \<le> t \<and> t < clock st' \<and> handler_calls e t = Some SIGINT"
          by simp
        with c(1) show ?thesis by blast
      qed
    qed
    note d = this
    from c c2 have c3: "captures (out st') = captures (out st) + Suc m" by simp
    from i have i3: "handler_installed st' = handler_installed st" by simp
    from k2 k have k3: "clock st \<le> clock st'" by (rule le_trans)
    from m have m3: "Suc m \<le> length (inp # rest)" by simp
    from m3 c3 i3 k3 d have "Suc m \<le> length (inp # rest) \<and>
        captures (out st') = captures (out st) + Suc m \<and>
        handler_installed st' = handler_installed st \<and> clock st \<le> clock st' \<and>
        (signal_recieved st \<or> (display l \<and> (\<exists>i<Suc m. is_closed ((inp # rest) ! i))) \<or>
         (handler_installed st \<and>
          (\<exists>t. clock st \<le> t \<and> t < clock st' \<and> handler_calls e t = Some SIGINT)))"
      by (intro conjI)
    then show ?thesis by (rule exI [of _ "Suc m"])
  qed
qed

lemma main_flag:
  assumes "main e = Some (r, fin)"
  shows "signal_recieved fin =
     ((signal_ok e \<and> (\<exists>t. 1 \<le> t \<and> t < clock fin \<and> handler_calls e t = Some SIGINT)) \<or>
      (\<exists>i<captures (out fin). is_closed (iterations e ! i)))"
proof (cases "startup e")
  case (Inl x)
  with assms have "fin = entry e"
    by (auto simp add: main_def entry_def)
  then show ?thesis
    by (simp add: entry_flag entry_fields(1))
next
  case (Inr x)
  obtain l st0 where x: "x = (l, st0)" by (cases x)
  with Inr have s: "startup e = Inr (l, st0)" by simp
  then have en: "entry e = st0" and rs: "reaches_streaming e"
    by (simp_all add: entry_def reaches_streaming_def)
  from s assms obtain st1 where lp: "loop e l (iterations e) st0 = Some st1"
    and fin: "fin = snd (teardown e l st1)"
    by (auto simp add: main_def split: option.splits)
  from loop_flag [OF lp] obtain n where
    c: "captures (out st1) = captures (out st0) + n"
    and i: "handler_installed st1 = handler_installed st0"
    and k: "clock st0 \<le> clock st1"
    and f: "signal_recieved st0 \<or> (display l \<and> (\<exists>i<n. is_closed (iterations e ! i))) \<or>
            (handler_installed st0 \<and>
             (\<exists>t. clock st0 \<le> t \<and> t < clock st1 \<and> handler_calls e t = Some SIGINT))"
    by blast
  have k0: "1 \<le> clock st0" and i0: "handler_installed st0 = signal_ok e"
    and c0: "captures (out st0) = 0"
    using entry_fields [of e] rs en by simp_all
  have k1: "clock st1 \<le> clock fin" and cf: "captures (out fin) = n"
    using c c0 by (simp_all add: fin teardown_fields)
  have "signal_recieved st1" by (rule loop_Some_flag [OF lp])
  then have set: "signal_recieved fin"
    by (simp add: fin teardown_flag)
  have "(signal_ok e \<and> (\<exists>t. 1 \<le> t \<and> t < clock fin \<and> handler_calls e t = Some SIGINT)) \<or>
      (\<exists>i<captures (out fin). is_closed (iterations e ! i))"
  proof -
    consider (a) "signal_recieved st0" | (b) "\<exists>i<n. is_closed (iterations e ! i)"
      | (c) "handler_installed st0"
          "\<exists>t. clock st0 \<le> t \<and> t < clock st1 \<and> handler_calls e t = Some SIGINT"
      using f by auto
    then show ?thesis
    proof cases
      case a
      then have "signal_ok e" and "\<exists>t. 1 \<le> t \<and> t < clock st0 \<and> handler_calls e t = Some SIGINT"
        using entry_flag [of e] en by simp_all
      then obtain t where "signal_ok e" "1 \<le> t" "t < clock st0" "handler_calls e t = Some SIGINT"
        by blast
      with k k1 have "signal_ok e \<and> 1 \<le> t \<and> t < clock fin \<and> handler_calls e t = Some SIGINT"
        by simp
      then show ?thesis by blast
    next
      case b
      with cf show ?thesis by simp
    next
      case c
      then obtain t where "clock st0 \<le> t" "t < clock st1" "handler_calls e t = Some SIGINT"
        by blast
      with k0 k1 c(1) i0
      have "signal_ok e \<and> 1 \<le> t \<and> t < clock fin \<and> handler_calls e t = Some SIGINT"
        by simp
      then show ?thesis by blast
    qed
  qed
  with set show ?thesis by simp
qed

lemma same_but_flag_start: "same_but_flag (st\<lparr>signal_recieved := b\<rparr>) st"
  by (simp add: same_but_flag_def)

lemma same_but_flag_emit: "same_but_flag a b \<Longrightarrow> same_but_flag (emit ev a) (emit ev b)"
  by (simp add: same_but_flag_def)

lemma same_but_flag_tick: "same_but_flag a b \<Longrightarrow> same_but_flag (tick e a) (tick e b)"
  by (auto simp add: same_but_flag_def tick_def sig_handler_def split: option.split)

lemma same_but_flag_act: "same_but_flag a b \<Longrightarrow> same_but_flag (act e ev a) (act e ev b)"
  by (simp add: act_def same_but_flag_emit same_but_flag_tick)

lemma same_but_flag_body: "same_but_flag a b \<Longrightarrow> same_but_flag (body e l inp a) (body e l inp b)"
proof -
  assume ab: "same_but_flag a b"
  have c: "same_but_flag (capture e inp a) (capture e inp b)"
    using ab by (simp add: capture_def Let_def same_but_flag_emit same_but_flag_act)
  have d: "same_but_flag (detect e l inp (capture e inp a)) (detect e l inp (capture e inp b))"
    using c by (simp add: detect_def same_but_flag_act)
  have r: "same_but_flag (report e inp x) (report e inp y)" if "same_but_flag x y" for x y
    using that by (simp add: same_but_flag_def)
  have u: "same_but_flag (update_display e l inp x) (update_display e l inp y)"
    if "same_but_flag x y" for x y
  proof -
    have w: "same_but_flag (x'\<lparr>signal_recieved := True\<rparr>) (y'\<lparr>signal_recieved := True\<rparr>)"
      if "same_but_flag x' y'" for x' y'
      using that by (simp add: same_but_flag_def)
    from that show ?thesis
      by (simp add: update_display_def Let_def same_but_flag_act w)
  qed
  show ?thesis
    unfolding body_def by (rule u [OF r [OF d]])
qed

lemma same_but_flag_teardown:
  "same_but_flag a b \<Longrightarrow>
   fst (teardown e l a) = fst (teardown e l b) \<and>
   same_but_flag (snd (teardown e l a)) (snd (teardown e l b))"
  by (simp add: teardown_def Let_def SAFE_DELETE_def same_but_flag_emit same_but_flag_act)

lemma tick_out_main: "filter from_main (out (tick e st)) = filter from_main (out st)"
  using extends_tick [of st e] by (auto simp add: extends_def)

lemma startup_schedule:
  "map_sum fst fst (startup (e\<lparr>handler_calls := h\<rparr>)) = map_sum fst fst (startup e) \<and>
   clock (entry (e\<lparr>handler_calls := h\<rparr>)) = clock (entry e) \<and>
   filter from_main (out (entry (e\<lparr>handler_calls := h\<rparr>))) = filter from_main (out (entry e))"
proof (cases "help_flag e")
  case True
  then show ?thesis
    by (simp add: entry_def startup_def usage_def fold_emit_fields)
next
  case False
  note h = this
  show ?thesis
  proof (cases "pipeline_create e")
    case None
    with h show ?thesis
      by (simp add: entry_def startup_def Let_def attach_handler_def act_def tick_out_main)
  next
    case (Some p)
    show ?thesis
    proof (cases "net_create e")
      case False
      with h Some show ?thesis
        by (simp add: entry_def startup_def Let_def attach_handler_def print_device_def act_def tick_out_main)
    next
      case True
      note n = this
      show ?thesis
      proof (cases "display_create e")
        case False
        with h Some n show ?thesis
          by (simp add: entry_def startup_def Let_def attach_handler_def print_device_def act_def tick_out_main)
      next
        case True
        with h Some n show ?thesis
          by (simp add: entry_def startup_def Let_def attach_handler_def print_device_def act_def tick_out_main)
      qed
    qed
  qed
qed

section \<open>The claims of the specification\<close>

subsection \<open>C1: the order of release\<close>

text \<open>  Claim C1, as the code has it: whenever \<^verbatim>\<open>main\<close> has reached the loop and the loop has
  ended, whatever ended it, \<^verbatim>\<open>main\<close> returns 0 after deleting the pipeline (FrameSource)
  first, then the display (DisplaySink), then the network (DetectionEngine).\<close>

theorem teardown_release_order:
  assumes "reaches_streaming e" and "main e \<noteq> None"
  shows "exit_status e = Some (Return 0) \<and> release_order e = Some [Pipeline, Display, Net]"
proof -
  from assms obtain l st0 st1 st where s: "startup e = Inr (l, st0)"
    and l: "loop e l (iterations e) st0 = Some st1"
    and t: "teardown e l st1 = (Return 0, st)" and m: "main e = Some (Return 0, st)"
    by (rule main_streaming)
  from teardown_result [of e l st1] t
  have "releases (out st) = releases (out st1) @ Pipeline # (if display l then [Display] else []) @ [Net]"
    by auto
  with loop_releases [OF l] startup_streaming(1,2) [OF s]
  have "releases (out st) = [Pipeline, Display, Net]" by simp
  with m show ?thesis
    by (simp add: exit_status_def release_order_def trace_def)
qed

text \<open>A run that a \<^verbatim>\<open>SIGINT\<close> ends during its first pass.\<close>

theorem teardown_release_order_witness:
  "reaches_streaming (script (sigint_at 9) True [frame True 0 False, frame True 0 False]) \<and>
   exit_status (script (sigint_at 9) True [frame True 0 False, frame True 0 False]) = Some (Return 0) \<and>
   release_order (script (sigint_at 9) True [frame True 0 False, frame True 0 False]) =
     Some [Pipeline, Display, Net]"
proof -
  let ?e = "script (sigint_at 9) True [frame True 0 False, frame True 0 False]"
  have h1: "reaches_streaming ?e" by code_simp
  have h2: "main ?e \<noteq> None" by code_simp
  from teardown_release_order [OF h1 h2] h1 show ?thesis by simp
qed

text \<open>  Claim C1 as the specification states it asks for the order display, network, pipeline.
  A run that the closing of the window ends releases them in another order.\<close>

theorem release_order_counterexample:
  "release_order (script quiet True [frame True 0 True]) = Some [Pipeline, Display, Net] \<and>
   release_order (script quiet True [frame True 0 True]) \<noteq> Some [Display, Net, Pipeline]"
  by code_simp

subsection \<open>C2: a failed capture\<close>

text \<open>  Claim C2, as the code has it: in a pass in which \<^verbatim>\<open>CaptureRGBA\<close> fails, \<^verbatim>\<open>main\<close> calls it
  with a timeout of 1000, prints the failure, and goes on with the same pass: \<^verbatim>\<open>Detect\<close> is
  called next, on the pointer the failed capture has left, and \<^verbatim>\<open>RenderOnce\<close> is called on
  it too when there is a display.\<close>

theorem failed_capture_continues:
  assumes "\<not> capture_ok inp"
  shows "take 3 (filter from_main (events_since st (body e l inp st))) =
           [Call_CaptureRGBA 1000,
            Printf ''detectnet-pipeline:  failed to capture RGBA image from pipeline\<newline>'' [],
            Call_Detect (capture_img inp) (width l) (height l) (overlayFlags l)] \<and>
         (display l \<longrightarrow>
            Call_RenderOnce (capture_img inp) (width l) (height l)
              \<in> set (events_since st (body e l inp st)))"
proof -
  have ev: "filter from_main (events_since st (body e l inp st)) = body_events e l inp"
    by (rule events_since_body)
  have "Call_RenderOnce (capture_img inp) (width l) (height l) \<in> set (body_events e l inp)"
    if "display l"
    using that by (simp add: body_events_def display_events_def)
  then have "Call_RenderOnce (capture_img inp) (width l) (height l)
      \<in> set (events_since st (body e l inp st))" if "display l"
    using that ev by (metis filter_is_subset subsetD)
  moreover have "take 3 (body_events e l inp) =
      [Call_CaptureRGBA 1000,
       Printf ''detectnet-pipeline:  failed to capture RGBA image from pipeline\<newline>'' [],
       Call_Detect (capture_img inp) (width l) (height l) (overlayFlags l)]"
    using assms by (simp add: body_events_def capture_events_def)
  ultimately show ?thesis
    using ev by simp
qed

theorem failed_capture_continues_witness:
  "\<not> capture_ok (frame False 0 False) \<and> display locals0 \<and>
   take 3 (filter from_main (events_since initial
       (body (script quiet True []) locals0 (frame False 0 False) initial))) =
     [Call_CaptureRGBA 1000,
      Printf ''detectnet-pipeline:  failed to capture RGBA image from pipeline\<newline>'' [],
      Call_Detect NULL 1280 720 7] \<and>
   Call_RenderOnce NULL 1280 720
     \<in> set (events_since initial (body (script quiet True []) locals0 (frame False 0 False) initial))"
proof -
  have h: "\<not> capture_ok (frame False 0 False)" by (simp add: frame_def)
  have d: "display locals0" by (simp add: locals0_def)
  from failed_capture_continues [OF h, of initial "script quiet True []" locals0] h d
  show ?thesis by (simp add: frame_def locals0_def)
qed

text \<open>  Claim C2 as the specification states it says that neither \<^verbatim>\<open>Detect\<close> nor
  \<^verbatim>\<open>RenderOnce\<close> is called in such a pass. The whole trace of a run of one pass, whose
  capture fails and leaves the null pointer, and during which the window is closed:\<close>

theorem failed_capture_counterexample:
  "\<not> capture_ok (frame False 0 True) \<and>
   trace (script quiet True [frame False 0 True]) =
     Some [Call_signal, Call_Create Pipeline,
           Printf ''\<newline>detectnet-pipeline:  successfully initialized pipeline device\<newline>'' [],
           Printf ''    width:  %u\<newline>'' [U 1280],
           Printf ''   height:  %u\<newline>'' [U 720],
           Printf ''    depth:  %u (bpp)\<newline>\<newline>'' [U 12],
           Call_Create Net, Call_Create Display, Call_SetViewport 10 10 1280 720, Call_Open,
           Printf ''detectnet-pipeline:  pipeline open for streaming\<newline>'' [],
           Call_CaptureRGBA 1000,
           Printf ''detectnet-pipeline:  failed to capture RGBA image from pipeline\<newline>'' [],
           Call_Detect NULL 1280 720 7,
           Call_RenderOnce NULL 1280 720,
           Call_SetTitle ''TensorRT %i.%i.%i | %s | Network %.0f FPS'' [I 5, I 0, I 6, S ''FP16'', F 0],
           Call_IsClosed,
           Printf ''detectnet-pipeline:  shutting down...\<newline>'' [],
           Delete Pipeline, Delete Display, Delete Net,
           Printf ''detectnet-pipeline:  shutdown complete.\<newline>'' []]"
  by code_simp

subsection \<open>C3: no display\<close>

text \<open>  Claim C3 says that the process goes on without a display when \<^verbatim>\<open>glDisplay::Create\<close>
  returns null, and never uses the null pointer. \<^verbatim>\<open>main\<close> prints the failure and does not
  return, and the loop tests \<^verbatim>\<open>display != NULL\<close> before it renders; but line 127 calls
  \<^verbatim>\<open>display->SetViewport\<close> with no test. A run in which only the display fails to come up
  ends there, before \<^verbatim>\<open>Open\<close> and before any capture or detection.\<close>

theorem null_display_is_dereferenced:
  "main (script quiet False [frame True 0 False]) =
     Some (NullDereference,
           \<lparr>signal_recieved = False, handler_installed = True, clock = 4,
            out = [Call_signal, Call_Create Pipeline,
                   Printf ''\<newline>detectnet-pipeline:  successfully initialized pipeline device\<newline>'' [],
                   Printf ''    width:  %u\<newline>'' [U 1280],
                   Printf ''   height:  %u\<newline>'' [U 720],
                   Printf ''    depth:  %u (bpp)\<newline>\<newline>'' [U 12],
                   Call_Create Net, Call_Create Display,
                   Printf ''detectnet-pipeline:  failed to create openGL display\<newline>'' []]\<rparr>)"
  by code_simp

subsection \<open>C4: a negative detection count\<close>

text \<open>  Claim C4, as the code has it: in a pass in which \<^verbatim>\<open>Detect\<close> returns a negative count,
  \<^verbatim>\<open>main\<close> prints nothing about the detection (the only line it can print in that pass
  is the one of a failed capture), calls \<^verbatim>\<open>Detect\<close> once, and carries on exactly as it does
  for a count of 0, in this pass and in the rest of the loop.\<close>

theorem negative_count_is_silent:
  assumes "num_detections inp < 0"
  shows "filter is_printf (filter from_main (events_since st (body e l inp st))) =
           (if capture_ok inp then []
            else [Printf ''detectnet-pipeline:  failed to capture RGBA image from pipeline\<newline>'' []]) \<and>
         length (filter is_detect (filter from_main (events_since st (body e l inp st)))) = 1 \<and>
         body e l inp st = body e l (inp\<lparr>num_detections := 0\<rparr>) st \<and>
         loop e l (inp # rest) st = loop e l (inp\<lparr>num_detections := 0\<rparr> # rest) st"
proof -
  have b: "body e l inp st' = body e l (inp\<lparr>num_detections := 0\<rparr>) st'" for st'
    using assms by (simp add: body_def report_nonpositive)
  have ev: "body_events e l inp =
      capture_events inp @ [Call_Detect (capture_img inp) (width l) (height l) (overlayFlags l)] @
      display_events e l inp"
    using assms by (simp add: body_events_def report_events_def)
  have p: "filter is_printf (filter from_main (events_since st (body e l inp st))) =
      (if capture_ok inp then []
       else [Printf ''detectnet-pipeline:  failed to capture RGBA image from pipeline\<newline>'' []])"
    unfolding events_since_body ev by (simp add: capture_events_def display_events_def)
  have d: "length (filter is_detect (filter from_main (events_since st (body e l inp st)))) = 1"
    unfolding events_since_body ev by (simp add: capture_events_def display_events_def)
  have lp: "loop e l (inp # rest) st = loop e l (inp\<lparr>num_detections := 0\<rparr> # rest) st"
    unfolding loop.simps b [symmetric] by (rule refl)
  from p d b [of st] lp show ?thesis by (intro conjI)
qed

theorem negative_count_is_silent_witness:
  "num_detections (frame True (- 1) False) < 0 \<and>
   filter is_printf (filter from_main (events_since initial
      (body (script quiet True []) locals0 (frame True (- 1) False) initial))) = [] \<and>
   length (filter is_detect (filter from_main (events_since initial
      (body (script quiet True []) locals0 (frame True (- 1) False) initial)))) = 1"
proof -
  have h: "num_detections (frame True (- 1) False) < 0" by (simp add: frame_def)
  have c: "capture_ok (frame True (- 1) False)" by (simp add: frame_def)
  note t = negative_count_is_silent [OF h, of initial "script quiet True []" locals0 "[]"]
  from t [THEN conjunct1] c have a: "filter is_printf (filter from_main (events_since initial
      (body (script quiet True []) locals0 (frame True (- 1) False) initial))) = []"
    by simp
  from h a t [THEN conjunct2, THEN conjunct1] show ?thesis by (intro conjI)
qed

text \<open>  Claim C4 as the specification states it says that a diagnostic reports the failure of
  the detection. The whole trace of a run of one pass in which \<^verbatim>\<open>Detect\<close> returns -1: no
  line is printed between the capture and the end of the loop.\<close>

theorem negative_count_counterexample:
  "num_detections (frame True (- 1) True) < 0 \<and>
   trace (script quiet True [frame True (- 1) True]) =
     Some [Call_signal, Call_Create Pipeline,
           Printf ''\<newline>detectnet-pipeline:  successfully initialized pipeline device\<newline>'' [],
           Printf ''    width:  %u\<newline>'' [U 1280],
           Printf ''   height:  %u\<newline>'' [U 720],
           Printf ''    depth:  %u (bpp)\<newline>\<newline>'' [U 12],
           Call_Create Net, Call_Create Display, Call_SetViewport 10 10 1280 720, Call_Open,
           Printf ''detectnet-pipeline:  pipeline open for streaming\<newline>'' [],
           Call_CaptureRGBA 1000,
           Call_Detect (Addr 1) 1280 720 7,
           Call_RenderOnce (Addr 1) 1280 720,
           Call_SetTitle ''TensorRT %i.%i.%i | %s | Network %.0f FPS'' [I 5, I 0, I 6, S ''FP16'', F 0],
           Call_IsClosed,
           Printf ''detectnet-pipeline:  shutting down...\<newline>'' [],
           Delete Pipeline, Delete Display, Delete Net,
           Printf ''detectnet-pipeline:  shutdown complete.\<newline>'' []]"
  by code_simp

subsection \<open>C5: cancellation during the loop\<close>



subsection \<open>C6: closing the window\<close>

text \<open>  Claim C6: let \<^verbatim>\<open>main\<close> reach the loop, let no \<^verbatim>\<open>SIGINT\<close> ever arrive, and let \<^verbatim>\<open>IsClosed\<close>
  return true for the first time in pass \<open>k + 1\<close>. Then the loop ends after exactly \<open>k + 1\<close>
  passes and \<^verbatim>\<open>main\<close> returns 0 after printing that the shutdown is complete.\<close>

theorem display_close_terminates:
  assumes "reaches_streaming e" and "\<forall>t. handler_calls e t \<noteq> Some SIGINT"
    and "k < length (iterations e)" and "is_closed (iterations e ! k)"
    and "\<forall>j<k. \<not> is_closed (iterations e ! j)"
  shows "exit_status e = Some (Return 0) \<and>
         map_option captures (trace e) = Some (Suc k) \<and>
         map_option last (trace e) = Some (Printf ''detectnet-pipeline:  shutdown complete.\<newline>'' [])"
proof -
  from assms(1) obtain l st0 where s: "startup e = Inr (l, st0)"
    by (auto simp add: reaches_streaming_def split: sum.splits)
  from loop_display_close [OF assms(2) startup_streaming(1) [OF s] startup_quiet [OF s assms(2)] assms(3-)]
  obtain st1 where lp: "loop e l (iterations e) st0 = Some st1"
    and c: "captures (out st1) = captures (out st0) + Suc k" by blast
  from teardown_result [of e l st1] obtain st where t: "teardown e l st1 = (Return 0, st)"
    and c': "captures (out st) = captures (out st1)"
    and la: "last (out st) = Printf ''detectnet-pipeline:  shutdown complete.\<newline>'' []"
    by blast
  from s lp t have "main e = Some (Return 0, st)"
    by (simp add: main_def)
  with c c' la startup_streaming(3) [OF s] show ?thesis
    by (simp add: exit_status_def trace_def)
qed

theorem display_close_terminates_witness:
  "reaches_streaming closes_on_third \<and> handler_calls closes_on_third = quiet \<and>
   map is_closed (iterations closes_on_third) = [False, False, True, False] \<and>
   exit_status closes_on_third = Some (Return 0) \<and>
   map_option captures (trace closes_on_third) = Some 3"
proof -
  have h1: "reaches_streaming closes_on_third" by code_simp
  have h2: "\<forall>t. handler_calls closes_on_third t \<noteq> Some SIGINT"
    by (simp add: closes_on_third_def script_def quiet_def)
  have h3: "2 < length (iterations closes_on_third)"
    by (simp add: closes_on_third_def script_def)
  have h4: "is_closed (iterations closes_on_third ! 2)"
    by (simp add: closes_on_third_def script_def frame_def)
  have h5: "\<forall>j<2. \<not> is_closed (iterations closes_on_third ! j)"
    by (simp add: closes_on_third_def script_def frame_def less_Suc_eq eval_nat_numeral)
  have h6: "handler_calls closes_on_third = quiet"
    by (simp add: closes_on_third_def script_def)
  have h7: "map is_closed (iterations closes_on_third) = [False, False, True, False]"
    by (simp add: closes_on_third_def script_def frame_def)
  from display_close_terminates [OF h1 h2 h3 h4 h5] h1 h6 h7
  show ?thesis by simp
qed

subsection \<open>C7: no detections\<close>

text \<open>  Claim C7: a pass in which \<^verbatim>\<open>Detect\<close> returns 0 prints no line of the detection report;
  and the state after it, and the result of the loop from it, differ from those of the
  same pass with a count of 3 in the lines of the report only: the flag, the delivery
  point and every call into a collaborator are the same.\<close>

theorem zero_detections_same_flow:
  "filter is_report_line (events_since st (body e l (inp\<lparr>num_detections := 0\<rparr>) st)) = [] \<and>
   same_flow (body e l (inp\<lparr>num_detections := 3\<rparr>) st) (body e l (inp\<lparr>num_detections := 0\<rparr>) st) \<and>
   rel_option same_flow (loop e l (inp\<lparr>num_detections := 3\<rparr> # rest) st)
     (loop e l (inp\<lparr>num_detections := 0\<rparr> # rest) st)"
proof -
  have a: "filter is_report_line (events_since st (body e l (inp\<lparr>num_detections := 0\<rparr>) st)) = []"
    unfolding report_lines_since
    by (simp add: body_events_def capture_events_def report_events_def display_events_def)
  have b: "same_flow (body e l (inp\<lparr>num_detections := 3\<rparr>) st') (body e l (inp\<lparr>num_detections := 0\<rparr>) st')"
    for st'
    unfolding body_def capture_num detect_num update_display_num
    by (rule same_flow_update_display [OF same_flow_report [OF same_flow_refl]])
  have c: "rel_option same_flow (loop e l (inp\<lparr>num_detections := 3\<rparr> # rest) st)
     (loop e l (inp\<lparr>num_detections := 0\<rparr> # rest) st)"
  proof (cases "signal_recieved (tick e st)")
    case True
    then show ?thesis by (simp add: same_flow_refl)
  next
    case False
    with same_flow_loop [OF b [of "tick e st"], of e l rest] show ?thesis by simp
  qed
  from a b [of st] c show ?thesis by (intro conjI)
qed

theorem zero_detections_same_flow_witness:
  "same_flow (body (script quiet True []) locals0 (frame True 3 False) initial)
     (body (script quiet True []) locals0 (frame True 0 False) initial) \<and>
   length (filter is_report_line (events_since initial
      (body (script quiet True []) locals0 (frame True 3 False) initial))) = 7 \<and>
   filter is_report_line (events_since initial
      (body (script quiet True []) locals0 (frame True 0 False) initial)) = []"
proof -
  have e3: "(frame True 0 False)\<lparr>num_detections := 3\<rparr> = frame True 3 False"
    and e0: "(frame True 0 False)\<lparr>num_detections := 0\<rparr> = frame True 0 False"
    by (simp_all add: frame_def)
  have n: "length (filter is_report_line (events_since initial
      (body (script quiet True []) locals0 (frame True 3 False) initial))) = 7"
    by code_simp
  note t = zero_detections_same_flow [of initial "script quiet True []" locals0 "frame True 0 False" "[]"]
  from t [THEN conjunct1] t [THEN conjunct2, THEN conjunct1] n show ?thesis
    unfolding e3 e0 by (intro conjI)
qed

subsection \<open>C8: failures during startup\<close>

text \<open>  Claim C8: when the pipeline cannot be created, when the network cannot be created, and
  when \<^verbatim>\<open>Open\<close> is called and fails, the last thing \<^verbatim>\<open>main\<close> does is print the diagnostic
  of that failure, and it returns 0, the status with which it returns for \<^verbatim>\<open>--help\<close>.
  (\<^verbatim>\<open>Open\<close> is called only if the display has come up, see C3.)\<close>

theorem startup_failures_exit_0:
  assumes "\<not> help_flag e"
    and "pipeline_create e = None \<or> \<not> net_create e \<or> (display_create e \<and> \<not> pipeline_open e)"
  shows "exit_status e = Some (Return 0) \<and>
         map_option last (trace e) =
           Some (Printf (if pipeline_create e = None
                         then ''\<newline>detectnet-pipeline:  failed to initialize pipeline device\<newline>''
                         else if \<not> net_create e
                         then ''detectnet-pipeline:   failed to load detectNet model\<newline>''
                         else ''detectnet-pipeline:  failed to open pipeline for streaming\<newline>'') []) \<and>
         exit_status (e\<lparr>help_flag := True\<rparr>) = Some (Return 0)"
  using assms
  by (auto simp add: exit_status_def trace_def main_def startup_def usage_def Let_def
      split: option.splits)

theorem startup_failures_exit_0_witness:
  "\<not> help_flag open_fails \<and> display_create open_fails \<and> \<not> pipeline_open open_fails \<and>
   exit_status open_fails = Some (Return 0) \<and>
   map_option last (trace open_fails) =
     Some (Printf ''detectnet-pipeline:  failed to open pipeline for streaming\<newline>'' [])"
proof -
  have h1: "\<not> help_flag open_fails"
    by (simp add: open_fails_def script_def)
  have h2: "display_create open_fails \<and> \<not> pipeline_open open_fails"
    by (simp add: open_fails_def script_def)
  have h3: "pipeline_create open_fails \<noteq> None \<and> net_create open_fails"
    by (simp add: open_fails_def script_def)
  from h2 have h4: "pipeline_create open_fails = None \<or> \<not> net_create open_fails \<or>
      (display_create open_fails \<and> \<not> pipeline_open open_fails)"
    by (rule disjI2 [OF disjI2])
  note t = startup_failures_exit_0 [OF h1 h4]
  from h3 t [THEN conjunct2, THEN conjunct1]
  have "map_option last (trace open_fails) =
      Some (Printf ''detectnet-pipeline:  failed to open pipeline for streaming\<newline>'' [])"
    by auto
  with h1 h2 t [THEN conjunct1] show ?thesis by (intro conjI) simp_all
qed

subsection \<open>C9: who writes the flag, and who reads it\<close>

text \<open>  Claim C9, as the code has it: the flag is written only by the handler and by the loop
  body, which sets it when there is a display and \<^verbatim>\<open>IsClosed\<close> returns true; it is never
  reset; and it is read only by the loop condition.

  Written: after a delivery point, after a pass through the loop body, after teardown and
  at the end of startup the flag is set if and only if it was set before (it is clear when
  \<^verbatim>\<open>main\<close> starts), or the registered handler has received a \<^verbatim>\<open>SIGINT\<close> at one of the
  delivery points passed, or, for the loop body, the window was closed. For a whole run
  that ends, however it ends: the flag is set at the end if and only if the handler was
  registered and has received a \<^verbatim>\<open>SIGINT\<close> at some delivery point of the run after its
  registration, or the window was closed in one of the passes made.

  Read: what a delivery point, a pass through the loop body and teardown do to the trace,
  to the delivery point and to the registration of the handler, and the status teardown
  returns, are the same whatever the value of the flag before; and how startup ends, the
  locals it leaves, the delivery points it passes and what it prints and calls are the
  same whatever the schedule of handler invocations, that is, whether or not the flag
  has been set meanwhile. That leaves the test of the loop condition in \<open>loop\<close>.\<close>

theorem flag_discipline:
  "signal_recieved (tick e st) =
     (signal_recieved st \<or> (handler_installed st \<and> handler_calls e (clock st) = Some SIGINT)) \<and>
   signal_recieved (body e l inp st) =
     (signal_recieved st \<or> (display l \<and> is_closed inp) \<or>
      (handler_installed st \<and>
       (\<exists>t. clock st \<le> t \<and> t < clock (body e l inp st) \<and> handler_calls e t = Some SIGINT))) \<and>
   signal_recieved (snd (teardown e l st)) =
     (signal_recieved st \<or>
      (handler_installed st \<and>
       (\<exists>t. clock st \<le> t \<and> t < clock (snd (teardown e l st)) \<and> handler_calls e t = Some SIGINT))) \<and>
   signal_recieved (entry e) =
     (signal_ok e \<and> (\<exists>t. 1 \<le> t \<and> t < clock (entry e) \<and> handler_calls e t = Some SIGINT)) \<and>
   (main e = Some (r, fin) \<longrightarrow>
      signal_recieved fin =
        ((signal_ok e \<and> (\<exists>t. 1 \<le> t \<and> t < clock fin \<and> handler_calls e t = Some SIGINT)) \<or>
         (\<exists>i<captures (out fin). is_closed (iterations e ! i)))) \<and>
   same_but_flag (tick e (st\<lparr>signal_recieved := b\<rparr>)) (tick e st) \<and>
   same_but_flag (body e l inp (st\<lparr>signal_recieved := b\<rparr>)) (body e l inp st) \<and>
   fst (teardown e l (st\<lparr>signal_recieved := b\<rparr>)) = fst (teardown e l st) \<and>
   same_but_flag (snd (teardown e l (st\<lparr>signal_recieved := b\<rparr>))) (snd (teardown e l st)) \<and>
   map_sum fst fst (startup (e\<lparr>handler_calls := h\<rparr>)) = map_sum fst fst (startup e) \<and>
   clock (entry (e\<lparr>handler_calls := h\<rparr>)) = clock (entry e) \<and>
   filter from_main (out (entry (e\<lparr>handler_calls := h\<rparr>))) = filter from_main (out (entry e))"
proof -
  have w1: "signal_recieved (tick e st) =
     (signal_recieved st \<or> (handler_installed st \<and> handler_calls e (clock st) = Some SIGINT))"
    by (rule tick_flag)
  have w2: "signal_recieved (body e l inp st) =
     (signal_recieved st \<or> (display l \<and> is_closed inp) \<or>
      (handler_installed st \<and>
       (\<exists>t. clock st \<le> t \<and> t < clock (body e l inp st) \<and> handler_calls e t = Some SIGINT)))"
    by (rule body_flag)
  have w3: "signal_recieved (snd (teardown e l st)) =
     (signal_recieved st \<or>
      (handler_installed st \<and>
       (\<exists>t. clock st \<le> t \<and> t < clock (snd (teardown e l st)) \<and> handler_calls e t = Some SIGINT)))"
    by (rule teardown_flag)
  have w4: "signal_recieved (entry e) =
     (signal_ok e \<and> (\<exists>t. 1 \<le> t \<and> t < clock (entry e) \<and> handler_calls e t = Some SIGINT))"
    by (rule entry_flag)
  have w5: "main e = Some (r, fin) \<longrightarrow>
      signal_recieved fin =
        ((signal_ok e \<and> (\<exists>t. 1 \<le> t \<and> t < clock fin \<and> handler_calls e t = Some SIGINT)) \<or>
         (\<exists>i<captures (out fin). is_closed (iterations e ! i)))"
    by (rule impI) (rule main_flag)
  have r1: "same_but_flag (tick e (st\<lparr>signal_recieved := b\<rparr>)) (tick e st)"
    by (rule same_but_flag_tick [OF same_but_flag_start])
  have r2: "same_but_flag (body e l inp (st\<lparr>signal_recieved := b\<rparr>)) (body e l inp st)"
    by (rule same_but_flag_body [OF same_but_flag_start])
  have r3: "fst (teardown e l (st\<lparr>signal_recieved := b\<rparr>)) = fst (teardown e l st)"
    and r4: "same_but_flag (snd (teardown e l (st\<lparr>signal_recieved := b\<rparr>))) (snd (teardown e l st))"
    using same_but_flag_teardown [OF same_but_flag_start] by blast+
  have r5: "map_sum fst fst (startup (e\<lparr>handler_calls := h\<rparr>)) = map_sum fst fst (startup e)"
    and r6: "clock (entry (e\<lparr>handler_calls := h\<rparr>)) = clock (entry e)"
    and r7: "filter from_main (out (entry (e\<lparr>handler_calls := h\<rparr>))) = filter from_main (out (entry e))"
    using startup_schedule [where e = e and h = h] by blast+
  from w1 w2 w3 w4 w5 r1 r2 r3 r4 r5 r6 r7 show ?thesis
    by (intro conjI)
qed

text \<open>A run without signals that ends with the flag set: the window was closed in its only
  pass.\<close>

theorem flag_discipline_witness:
  "main closes_at_once \<noteq> None \<and> handler_calls closes_at_once = quiet \<and>
   final_flag closes_at_once = Some True \<and> map_option captures (trace closes_at_once) = Some 1 \<and>
   is_closed (iterations closes_at_once ! 0)"
proof -
  have h0: "main closes_at_once \<noteq> None" by code_simp
  then obtain r fin where h: "main closes_at_once = Some (r, fin)" by auto
  have q: "handler_calls closes_at_once = quiet"
    by (simp add: closes_at_once_def script_def)
  have f: "final_flag closes_at_once = Some True" by code_simp
  have c: "map_option captures (trace closes_at_once) = Some 1" by code_simp
  from h f have f': "signal_recieved fin" by (simp add: final_flag_def)
  from h c have c': "captures (out fin) = 1" by (simp add: trace_def)
  have "main closes_at_once = Some (r, fin) \<longrightarrow>
      signal_recieved fin =
        ((signal_ok closes_at_once \<and>
          (\<exists>t. 1 \<le> t \<and> t < clock fin \<and> handler_calls closes_at_once t = Some SIGINT)) \<or>
         (\<exists>i<captures (out fin). is_closed (iterations closes_at_once ! i)))"
    by (rule flag_discipline [where e = closes_at_once and r = r and fin = fin,
          THEN conjunct2, THEN conjunct2, THEN conjunct2, THEN conjunct2, THEN conjunct1])
  with h have "signal_recieved fin =
        ((signal_ok closes_at_once \<and>
          (\<exists>t. 1 \<le> t \<and> t < clock fin \<and> handler_calls closes_at_once t = Some SIGINT)) \<or>
         (\<exists>i<captures (out fin). is_closed (iterations closes_at_once ! i)))"
    by (rule rev_mp)
  with f' have "(signal_ok closes_at_once \<and>
          (\<exists>t. 1 \<le> t \<and> t < clock fin \<and> handler_calls closes_at_once t = Some SIGINT)) \<or>
         (\<exists>i<captures (out fin). is_closed (iterations closes_at_once ! i))"
    by (rule iffD1 [rotated])
  moreover have "handler_calls closes_at_once t \<noteq> Some SIGINT" for t
    by (simp add: q quiet_def)
  ultimately have "\<exists>i<captures (out fin). is_closed (iterations closes_at_once ! i)"
    by blast
  with c' have "is_closed (iterations closes_at_once ! 0)" by simp
  with h0 q f c show ?thesis by (intro conjI)
qed

text \<open>  Claim C9 as the specification states it says that no step of the loop writes the flag.
  A run in which the handler is never invoked, the flag is not set when the loop is
  entered, and the window is closed in the first pass, ends with the flag set.\<close>

theorem loop_writes_flag_counterexample:
  "handler_calls (script quiet True [frame True 0 True]) = quiet \<and>
   \<not> cancelled_at_entry (script quiet True [frame True 0 True]) \<and>
   final_flag (script quiet True [frame True 0 True]) = Some True"
proof -
  have "handler_calls (script quiet True [frame True 0 True]) = quiet"
    by (simp add: script_def)
  moreover have "\<not> cancelled_at_entry (script quiet True [frame True 0 True])"
    by code_simp
  moreover have "final_flag (script quiet True [frame True 0 True]) = Some True"
    by code_simp
  ultimately show ?thesis by (intro conjI)
qed

subsection \<open>C10: cancellation before the loop\<close>

text \<open>  Claim C10: when the flag is already set at the first test of the loop condition, the
  loop body is not run: \<^verbatim>\<open>CaptureRGBA\<close> is never called, and \<^verbatim>\<open>main\<close> goes on to delete the
  collaborators and returns 0.\<close>

theorem cancelled_before_loop:
  assumes "cancelled_at_entry e"
  shows "exit_status e = Some (Return 0) \<and> map_option captures (trace e) = Some 0 \<and>
         release_order e = Some [Pipeline, Display, Net]"
proof -
  from assms obtain l st0 where s: "startup e = Inr (l, st0)" and f: "signal_recieved st0"
    by (auto simp add: cancelled_at_entry_def split: sum.splits)
  have lp: "loop e l (iterations e) st0 = Some (tick e st0)"
    by (rule loop_cancelled [OF f])
  from teardown_result [of e l "tick e st0"] obtain st where
    t: "teardown e l (tick e st0) = (Return 0, st)"
    and r: "releases (out st) = releases (out (tick e st0)) @ Pipeline # (if display l then [Display] else []) @ [Net]"
    and c: "captures (out st) = captures (out (tick e st0))"
    by blast
  from s lp t have m: "main e = Some (Return 0, st)"
    by (simp add: main_def)
  from r c startup_streaming(1,2,3) [OF s]
  have "releases (out st) = [Pipeline, Display, Net]" "captures (out st) = 0"
    by simp_all
  with m show ?thesis
    by (simp add: exit_status_def trace_def release_order_def)
qed

text \<open>A \<^verbatim>\<open>SIGINT\<close> that arrives while the network is being created.\<close>

theorem cancelled_before_loop_witness:
  "cancelled_at_entry (script (sigint_at 2) True [frame True 0 False, frame True 0 False]) \<and>
   exit_status (script (sigint_at 2) True [frame True 0 False, frame True 0 False]) = Some (Return 0) \<and>
   map_option captures (trace (script (sigint_at 2) True [frame True 0 False, frame True 0 False])) = Some 0"
proof -
  have h: "cancelled_at_entry (script (sigint_at 2) True [frame True 0 False, frame True 0 False])"
    by code_simp
  from cancelled_before_loop [OF h] h show ?thesis by simp
qed

end
